theory Spec2Isabelle
  imports Main
begin

section \<open>JavaScript arrays\<close>

text \<open>
  The state store keeps two JavaScript arrays and a separate length field \<open>_len\<close>.
  Arrays are lists; indices are integers, as the source computes them
  (\<open>lineIndex + 1\<close>, \<open>startLineNumber + j - 1\<close>).

  \<open>arr_get xs i\<close> is the read \<open>xs[i]\<close>: \<open>None\<close> stands for \<open>undefined\<close>, which is
  what a read outside the elements returns.

  \<open>arr_set xs i v\<close> is the write \<open>xs[i] = v\<close>: inside the array it overwrites, at
  \<open>i = xs.length\<close> the array grows by one. A write at a negative index (a property, not
  an element) or beyond the length (which leaves holes) leaves the list as it is: the
  store only writes below \<open>_len\<close> or at \<open>_len\<close>, and \<open>store_wf\<close> below says that
  \<open>_len\<close> is the length of both arrays.
\<close>

definition arr_get :: "'a list \<Rightarrow> int \<Rightarrow> 'a option" where
  "arr_get xs i = (if 0 \<le> i \<and> i < int (length xs) then Some (xs ! nat i) else None)"

definition arr_set :: "'a list \<Rightarrow> int \<Rightarrow> 'a \<Rightarrow> 'a list" where
  "arr_set xs i v =
     (if 0 \<le> i \<and> i < int (length xs) then xs[nat i := v]
      else if i = int (length xs) then xs @ [v]
      else xs)"

text \<open>
  \<open>Array.prototype.splice(start, deleteCount)\<close> with no inserted items: a negative
  \<open>start\<close> counts from the end, a \<open>start\<close> beyond the length is the length, and
  \<open>deleteCount\<close> is clamped to what is there.
\<close>

definition splice_arr :: "'a list \<Rightarrow> int \<Rightarrow> int \<Rightarrow> 'a list" where
  "splice_arr xs start deleteCount =
     (let n = int (length xs);
          s = (if start < 0 then max (n + start) 0 else min start n);
          d = max 0 (min deleteCount (n - s))
      in take (nat s) xs @ drop (nat (s + d)) xs)"

text \<open>
  Modelled from the spec: \<open>arrays.arrayInsert\<close> (vs/base/common/arrays) is imported by
  the source and not part of it. The spec's edit protocol says "splice in
  \<open>insertedLineCount\<close> default entries at index \<open>range.startLine\<close>": the result is the
  target up to \<open>insertIndex\<close>, the inserted array, and the rest of the target.
\<close>

definition arrayInsert :: "'a list \<Rightarrow> int \<Rightarrow> 'a list \<Rightarrow> 'a list" where
  "arrayInsert target insertIndex insertArr =
     take (nat insertIndex) target @ insertArr @ drop (nat insertIndex) target"

section \<open>TokenizationStateStore\<close>

text \<open>
  The four private fields of the class. A begin state is \<open>IState | null\<close>:
  \<open>None\<close> is \<open>null\<close>. The type \<open>'s\<close> of tokenizer states is opaque; its method
  \<open>equals\<close> is a parameter where the store calls it.
\<close>

record 's TokenizationStateStore =
  beginState :: "'s option list"
  valid :: "bool list"
  len :: int
  invalidLineStartIndex :: int

text \<open>The constructor.\<close>

definition new_store :: "'s TokenizationStateStore" where
  "new_store = \<lparr> beginState = [], valid = [], len = 0, invalidLineStartIndex = 0 \<rparr>"

text \<open>\<open>_invalidateLine\<close>\<close>

definition invalidateLine :: "'s TokenizationStateStore \<Rightarrow> int \<Rightarrow> 's TokenizationStateStore" where
  "invalidateLine st lineIndex =
     (let st1 = (if lineIndex < len st
                 then st\<lparr> valid := arr_set (valid st) lineIndex False \<rparr>
                 else st)
      in if lineIndex < invalidLineStartIndex st1
         then st1\<lparr> invalidLineStartIndex := lineIndex \<rparr>
         else st1)"

text \<open>
  \<open>_isValid\<close>. Its only caller negates the result, so an \<open>undefined\<close> read counts as
  \<open>false\<close>.
\<close>

definition isValid :: "'s TokenizationStateStore \<Rightarrow> int \<Rightarrow> bool" where
  "isValid st lineIndex =
     (if lineIndex < len st
      then (case arr_get (valid st) lineIndex of Some b \<Rightarrow> b | None \<Rightarrow> False)
      else False)"

text \<open>
  \<open>getBeginState\<close>. \<open>None\<close> is \<open>null\<close>; an \<open>undefined\<close> read (an index that is not
  an element, excluded by \<open>store_wf\<close> for indices from 0) is \<open>None\<close> as well.
\<close>

definition getBeginState :: "'s TokenizationStateStore \<Rightarrow> int \<Rightarrow> 's option" where
  "getBeginState st lineIndex =
     (if lineIndex < len st
      then (case arr_get (beginState st) lineIndex of Some b \<Rightarrow> b | None \<Rightarrow> None)
      else None)"

text \<open>\<open>_ensureLine\<close>: the loop appends default entries while \<open>lineIndex >= _len\<close>.\<close>

function ensureLine :: "'s TokenizationStateStore \<Rightarrow> int \<Rightarrow> 's TokenizationStateStore" where
  "ensureLine st lineIndex =
     (if lineIndex \<ge> len st
      then ensureLine
             (st\<lparr> beginState := arr_set (beginState st) (len st) None,
                  valid := arr_set (valid st) (len st) False,
                  len := len st + 1 \<rparr>)
             lineIndex
      else st)"
  by pat_completeness auto
termination
  by (relation "measure (\<lambda>(st, lineIndex). nat (lineIndex - len st + 1))") auto

declare ensureLine.simps [simp del]

text \<open>\<open>_deleteLines\<close>\<close>

definition deleteLines :: "'s TokenizationStateStore \<Rightarrow> int \<Rightarrow> int \<Rightarrow> 's TokenizationStateStore" where
  "deleteLines st start deleteCount0 =
     (if deleteCount0 = 0 then st
      else
        let deleteCount = (if start + deleteCount0 > len st then len st - start else deleteCount0)
        in st\<lparr> beginState := splice_arr (beginState st) start deleteCount,
                valid := splice_arr (valid st) start deleteCount,
                len := len st - deleteCount \<rparr>)"

text \<open>
  \<open>_insertLines\<close>: the \<open>for\<close> loop fills two arrays with \<open>insertCount\<close> default
  entries (none when \<open>insertCount\<close> is not positive).
\<close>

definition insertLines :: "'s TokenizationStateStore \<Rightarrow> int \<Rightarrow> int \<Rightarrow> 's TokenizationStateStore" where
  "insertLines st insertIndex insertCount =
     (if insertCount = 0 then st
      else
        st\<lparr> beginState := arrayInsert (beginState st) insertIndex (replicate (nat insertCount) None),
             valid := arrayInsert (valid st) insertIndex (replicate (nat insertCount) False),
             len := len st + insertCount \<rparr>)"

text \<open>\<open>_setValid\<close> and \<open>_setBeginState\<close>\<close>

definition setValid :: "'s TokenizationStateStore \<Rightarrow> int \<Rightarrow> bool \<Rightarrow> 's TokenizationStateStore" where
  "setValid st lineIndex v =
     (let st1 = ensureLine st lineIndex
      in st1\<lparr> valid := arr_set (valid st1) lineIndex v \<rparr>)"

definition setBeginState :: "'s TokenizationStateStore \<Rightarrow> int \<Rightarrow> 's option \<Rightarrow> 's TokenizationStateStore" where
  "setBeginState st lineIndex b =
     (let st1 = ensureLine st lineIndex
      in st1\<lparr> beginState := arr_set (beginState st1) lineIndex b \<rparr>)"

text \<open>\<open>_reset\<close> and \<open>flush\<close>\<close>

definition reset :: "'s TokenizationStateStore \<Rightarrow> 's option \<Rightarrow> 's TokenizationStateStore" where
  "reset st initialState =
     (let st1 = st\<lparr> beginState := [], valid := [], len := 0, invalidLineStartIndex := 0 \<rparr>
      in case initialState of
           Some s \<Rightarrow> setBeginState st1 0 (Some s)
         | None \<Rightarrow> st1)"

definition flush :: "'s TokenizationStateStore \<Rightarrow> 's option \<Rightarrow> 's TokenizationStateStore" where
  "flush st initialState = reset st initialState"

text \<open>
  The skip-ahead loop at the end of \<open>setEndState\<close>:
  \<open>while (i < linesLength) { if (!this._isValid(i)) break; i++; }\<close>, returning the
  final \<open>i\<close>.
\<close>

function setEndState_loop :: "'s TokenizationStateStore \<Rightarrow> int \<Rightarrow> int \<Rightarrow> int" where
  "setEndState_loop st linesLength i =
     (if i < linesLength
      then (if \<not> isValid st i then i else setEndState_loop st linesLength (i + 1))
      else i)"
  by pat_completeness auto
termination
  by (relation "measure (\<lambda>(st, linesLength, i). nat (linesLength - i))") auto

declare setEndState_loop.simps [simp del]

text \<open>
  \<open>setEndState\<close>. The first parameter is the method \<open>equals\<close> of the state type:
  \<open>equals a b\<close> is \<open>a.equals(b)\<close>.
\<close>

definition setEndState ::
  "('s \<Rightarrow> 's \<Rightarrow> bool) \<Rightarrow> 's TokenizationStateStore \<Rightarrow> int \<Rightarrow> int \<Rightarrow> 's \<Rightarrow> 's TokenizationStateStore" where
  "setEndState equals st linesLength lineIndex endState =
     (let st1 = setValid st lineIndex True;
          st2 = st1\<lparr> invalidLineStartIndex := lineIndex + 1 \<rparr>
      in if lineIndex = linesLength - 1 then st2
         else
           (case getBeginState st2 (lineIndex + 1) of
              None \<Rightarrow> invalidateLine (setBeginState st2 (lineIndex + 1) (Some endState)) (lineIndex + 1)
            | Some previousEndState \<Rightarrow>
                if \<not> equals endState previousEndState
                then invalidateLine (setBeginState st2 (lineIndex + 1) (Some endState)) (lineIndex + 1)
                else st2\<lparr> invalidLineStartIndex := setEndState_loop st2 linesLength (lineIndex + 1) \<rparr>))"

text \<open>\<open>setFakeTokens\<close>\<close>

definition setFakeTokens :: "'s TokenizationStateStore \<Rightarrow> int \<Rightarrow> 's TokenizationStateStore" where
  "setFakeTokens st lineIndex = setValid st lineIndex False"

subsection \<open>Editing\<close>

record IRange =
  startLineNumber :: int
  startColumn :: int
  endLineNumber :: int
  endColumn :: int

record Position =
  lineNumber :: int
  column :: int

text \<open>\<open>_acceptDeleteRange\<close> and \<open>_acceptInsertText\<close>\<close>

definition acceptDeleteRange :: "'s TokenizationStateStore \<Rightarrow> IRange \<Rightarrow> 's TokenizationStateStore" where
  "acceptDeleteRange st rng =
     (let firstLineIndex = startLineNumber rng - 1
      in if firstLineIndex \<ge> len st then st
         else deleteLines st (startLineNumber rng) (endLineNumber rng - startLineNumber rng))"

definition acceptInsertText :: "'s TokenizationStateStore \<Rightarrow> Position \<Rightarrow> int \<Rightarrow> 's TokenizationStateStore" where
  "acceptInsertText st position eolCount =
     (let lineIndex = lineNumber position - 1
      in if lineIndex \<ge> len st then st
         else insertLines st (lineNumber position) eolCount)"

text \<open>
  The loop of \<open>applyEdits\<close>:
  \<open>for (let j = editingLinesCnt; j >= 0; j--) this._invalidateLine(range.startLineNumber + j - 1)\<close>.
\<close>

function applyEdits_loop :: "'s TokenizationStateStore \<Rightarrow> IRange \<Rightarrow> int \<Rightarrow> 's TokenizationStateStore" where
  "applyEdits_loop st rng j =
     (if j \<ge> 0
      then applyEdits_loop (invalidateLine st (startLineNumber rng + j - 1)) rng (j - 1)
      else st)"
  by pat_completeness auto
termination
  by (relation "measure (\<lambda>(st, rng, j). nat (j + 1))") auto

declare applyEdits_loop.simps [simp del]

definition applyEdits :: "'s TokenizationStateStore \<Rightarrow> IRange \<Rightarrow> int \<Rightarrow> 's TokenizationStateStore" where
  "applyEdits st rng eolCount =
     (let deletingLinesCnt = endLineNumber rng - startLineNumber rng;
          insertingLinesCnt = eolCount;
          editingLinesCnt = min deletingLinesCnt insertingLinesCnt;
          st1 = applyEdits_loop st rng editingLinesCnt;
          st2 = acceptDeleteRange st1 rng
      in acceptInsertText st2
           \<lparr> lineNumber = startLineNumber rng, column = startColumn rng \<rparr> eolCount)"

section \<open>Properties of the state store\<close>

text \<open>
  The class keeps \<open>_len\<close> equal to the length of both arrays: the constructor and
  \<open>_reset\<close> set all three to empty, and every method changes them together.
\<close>

definition store_wf :: "'s TokenizationStateStore \<Rightarrow> bool" where
  "store_wf st = (int (length (beginState st)) = len st \<and> int (length (valid st)) = len st)"

lemma ensureLine_frontier:
  "invalidLineStartIndex (ensureLine st i) = invalidLineStartIndex st"
  by (induction st i rule: ensureLine.induct) (subst ensureLine.simps, simp)

lemma ensureLine_len: "len (ensureLine st i) = max (len st) (i + 1)"
  by (induction st i rule: ensureLine.induct) (subst ensureLine.simps, simp)

lemma ensureLine_wf: "store_wf st \<Longrightarrow> store_wf (ensureLine st i)"
proof (induction st i rule: ensureLine.induct)
  case (1 st i)
  show ?case
  proof (cases "i \<ge> len st")
    case True
    let ?st = "st\<lparr>beginState := arr_set (beginState st) (len st) None,
                  valid := arr_set (valid st) (len st) False, len := len st + 1\<rparr>"
    from "1.prems" have "store_wf ?st" by (simp add: store_wf_def arr_set_def)
    with "1.IH" [OF True] True show ?thesis by (subst ensureLine.simps) simp
  next
    case False
    with "1.prems" show ?thesis by (subst ensureLine.simps) simp
  qed
qed

lemma ensureLine_isValid: "store_wf st \<Longrightarrow> isValid (ensureLine st i) j = isValid st j"
proof (induction st i rule: ensureLine.induct)
  case (1 st i)
  show ?case
  proof (cases "i \<ge> len st")
    case True
    let ?st = "st\<lparr>beginState := arr_set (beginState st) (len st) None,
                  valid := arr_set (valid st) (len st) False, len := len st + 1\<rparr>"
    from "1.prems" have wf: "store_wf ?st" by (simp add: store_wf_def arr_set_def)
    from "1.prems" have "isValid ?st j = isValid st j"
      by (auto simp: store_wf_def arr_set_def isValid_def arr_get_def nth_append)
    with "1.IH" [OF True wf] True show ?thesis by (subst ensureLine.simps) simp
  next
    case False
    then show ?thesis by (subst ensureLine.simps) simp
  qed
qed

lemma ensureLine_getBeginState:
  "store_wf st \<Longrightarrow> getBeginState (ensureLine st i) j = getBeginState st j"
proof (induction st i rule: ensureLine.induct)
  case (1 st i)
  show ?case
  proof (cases "i \<ge> len st")
    case True
    let ?st = "st\<lparr>beginState := arr_set (beginState st) (len st) None,
                  valid := arr_set (valid st) (len st) False, len := len st + 1\<rparr>"
    from "1.prems" have wf: "store_wf ?st" by (simp add: store_wf_def arr_set_def)
    from "1.prems" have "getBeginState ?st j = getBeginState st j"
      by (auto simp: store_wf_def arr_set_def getBeginState_def arr_get_def nth_append)
    with "1.IH" [OF True wf] True show ?thesis by (subst ensureLine.simps) simp
  next
    case False
    then show ?thesis by (subst ensureLine.simps) simp
  qed
qed


lemma setValid_frontier: "invalidLineStartIndex (setValid st i v) = invalidLineStartIndex st"
  by (simp add: setValid_def Let_def ensureLine_frontier)

lemma setValid_len: "len (setValid st i v) = max (len st) (i + 1)"
  by (simp add: setValid_def Let_def ensureLine_len)

lemma setValid_wf: "store_wf st \<Longrightarrow> store_wf (setValid st i v)"
  using ensureLine_wf [of st i] ensureLine_len [of st i]
  by (simp add: setValid_def Let_def store_wf_def arr_set_def)

lemma setValid_isValid:
  assumes "store_wf st" and "0 \<le> i"
  shows "isValid (setValid st i v) j = (if j = i then v else isValid st j)"
proof -
  let ?st1 = "ensureLine st i"
  have wf1: "store_wf ?st1" using assms(1) by (rule ensureLine_wf)
  have l1: "i < len ?st1" by (simp add: ensureLine_len)
  have "isValid (?st1\<lparr>valid := arr_set (valid ?st1) i v\<rparr>) j = (if j = i then v else isValid ?st1 j)"
    using wf1 l1 assms(2)
    by (auto simp: isValid_def arr_get_def arr_set_def store_wf_def nat_eq_iff)
  then show ?thesis
    using assms(1) by (simp add: setValid_def Let_def ensureLine_isValid)
qed

lemma setValid_getBeginState:
  assumes "store_wf st"
  shows "getBeginState (setValid st i v) j = getBeginState st j"
proof -
  let ?st1 = "ensureLine st i"
  have "getBeginState (?st1\<lparr>valid := arr_set (valid ?st1) i v\<rparr>) j = getBeginState ?st1 j"
    by (simp add: getBeginState_def)
  then show ?thesis
    using assms by (simp add: setValid_def Let_def ensureLine_getBeginState)
qed

lemma setBeginState_frontier:
  "invalidLineStartIndex (setBeginState st i b) = invalidLineStartIndex st"
  by (simp add: setBeginState_def Let_def ensureLine_frontier)

lemma setBeginState_len: "len (setBeginState st i b) = max (len st) (i + 1)"
  by (simp add: setBeginState_def Let_def ensureLine_len)

lemma setBeginState_wf: "store_wf st \<Longrightarrow> store_wf (setBeginState st i b)"
  using ensureLine_wf [of st i] ensureLine_len [of st i]
  by (simp add: setBeginState_def Let_def store_wf_def arr_set_def)

lemma setBeginState_isValid:
  assumes "store_wf st"
  shows "isValid (setBeginState st i b) j = isValid st j"
proof -
  let ?st1 = "ensureLine st i"
  have "isValid (?st1\<lparr>beginState := arr_set (beginState ?st1) i b\<rparr>) j = isValid ?st1 j"
    by (simp add: isValid_def)
  then show ?thesis
    using assms by (simp add: setBeginState_def Let_def ensureLine_isValid)
qed

lemma setBeginState_getBeginState:
  assumes "store_wf st" and "0 \<le> i"
  shows "getBeginState (setBeginState st i b) j = (if j = i then b else getBeginState st j)"
proof -
  let ?st1 = "ensureLine st i"
  have wf1: "store_wf ?st1" using assms(1) by (rule ensureLine_wf)
  have l1: "i < len ?st1" by (simp add: ensureLine_len)
  have "getBeginState (?st1\<lparr>beginState := arr_set (beginState ?st1) i b\<rparr>) j
          = (if j = i then b else getBeginState ?st1 j)"
    using wf1 l1 assms(2)
    by (auto simp: getBeginState_def arr_get_def arr_set_def store_wf_def nat_eq_iff)
  then show ?thesis
    using assms(1) by (simp add: setBeginState_def Let_def ensureLine_getBeginState)
qed

lemma invalidateLine_frontier:
  "invalidLineStartIndex (invalidateLine st i) = min (invalidLineStartIndex st) i"
  by (simp add: invalidateLine_def Let_def)

lemma invalidateLine_len: "len (invalidateLine st i) = len st"
  by (simp add: invalidateLine_def Let_def)

lemma invalidateLine_wf: "store_wf st \<Longrightarrow> store_wf (invalidateLine st i)"
  by (simp add: invalidateLine_def Let_def store_wf_def arr_set_def)

lemma invalidateLine_beginState: "beginState (invalidateLine st i) = beginState st"
  by (simp add: invalidateLine_def Let_def)

lemma invalidateLine_getBeginState: "getBeginState (invalidateLine st i) j = getBeginState st j"
  by (simp add: invalidateLine_def Let_def getBeginState_def)

lemma invalidateLine_isValid:
  "store_wf st \<Longrightarrow> isValid (invalidateLine st i) j = (isValid st j \<and> j \<noteq> i)"
  by (auto simp: invalidateLine_def Let_def isValid_def arr_get_def arr_set_def store_wf_def
        nth_list_update nat_eq_iff split: if_splits)

lemma setEndState_loop_ge: "i \<le> setEndState_loop st n i"
  by (induction st n i rule: setEndState_loop.induct)
     (subst setEndState_loop.simps, auto)

lemma setEndState_loop_le: "i \<le> n \<Longrightarrow> setEndState_loop st n i \<le> n"
  by (induction st n i rule: setEndState_loop.induct)
     (subst setEndState_loop.simps, auto)

lemma setEndState_loop_skipped:
  "i \<le> j \<Longrightarrow> j < setEndState_loop st n i \<Longrightarrow> isValid st j \<and> j < n"
proof (induction st n i rule: setEndState_loop.induct)
  case (1 st n i)
  show ?case
  proof (cases "i < n \<and> isValid st i")
    case True
    then have eq: "setEndState_loop st n i = setEndState_loop st n (i + 1)"
      by (subst setEndState_loop.simps) simp
    show ?thesis
    proof (cases "j = i")
      case True
      with \<open>i < n \<and> isValid st i\<close> show ?thesis by simp
    next
      case False
      with "1.prems" eq have "i + 1 \<le> j" "j < setEndState_loop st n (i + 1)" by simp_all
      with "1.IH" True show ?thesis by simp
    qed
  next
    case False
    then have "setEndState_loop st n i = i"
      by (subst setEndState_loop.simps) auto
    with "1.prems" show ?thesis by simp
  qed
qed

lemma setEndState_loop_stop:
  "setEndState_loop st n i < n \<Longrightarrow> \<not> isValid st (setEndState_loop st n i)"
proof (induction st n i rule: setEndState_loop.induct)
  case (1 st n i)
  show ?case
  proof (cases "i < n \<and> isValid st i")
    case True
    then have eq: "setEndState_loop st n i = setEndState_loop st n (i + 1)"
      by (subst setEndState_loop.simps) simp
    with "1.IH" "1.prems" True show ?thesis by simp
  next
    case False
    then have eq: "setEndState_loop st n i = i"
      by (subst setEndState_loop.simps) auto
    with "1.prems" False show ?thesis by simp
  qed
qed

lemma setEndState_loop_cong:
  "(\<And>j. i \<le> j \<Longrightarrow> isValid st j = isValid st' j)
     \<Longrightarrow> setEndState_loop st n i = setEndState_loop st' n i"
proof (induction st n i rule: setEndState_loop.induct)
  case (1 st n i)
  show ?case
  proof (cases "i < n \<and> isValid st i")
    case True
    have "setEndState_loop st n (i + 1) = setEndState_loop st' n (i + 1)"
      using True "1.prems" by (intro "1.IH") simp_all
    moreover have "isValid st' i" using True "1.prems" [of i] by simp
    ultimately show ?thesis
      using True
      by (subst setEndState_loop.simps, subst (2) setEndState_loop.simps) simp
  next
    case False
    moreover have "isValid st' i = isValid st i" using "1.prems" [of i] by simp
    ultimately show ?thesis
      by (subst setEndState_loop.simps, subst (2) setEndState_loop.simps) auto
  qed
qed

lemma setEndState_frontier_ge:
  "lineIndex + 1 \<le> invalidLineStartIndex (setEndState equals st linesLength lineIndex endState)"
  by (simp add: setEndState_def Let_def invalidateLine_frontier setBeginState_frontier
        setEndState_loop_ge split: option.splits)

text \<open>
  Claim C3 (frontier monotone on success): for every store, after any call
  \<open>setEndState(bufCount, i, endState)\<close> the invalid frontier
  \<open>invalidLineStartIndex\<close> is at least \<open>i + 1\<close>. All three exits of the method leave
  it there: the last-line exit at \<open>i + 1\<close>, the changed-state exit at \<open>i + 1\<close>
  (\<open>_invalidateLine(i + 1)\<close> only lowers a frontier above its argument), and the
  skip-ahead loop counts up from \<open>i + 1\<close>.
\<close>

theorem setEndState_frontier_monotone:
  "lineIndex + 1 \<le> invalidLineStartIndex (setEndState equals st linesLength lineIndex endState)"
  by (rule setEndState_frontier_ge)

theorem setEndState_frontier_monotone_witness:
  "(2::int) + 1 \<le> invalidLineStartIndex
      (setEndState (=) (new_store :: nat TokenizationStateStore) 5 2 (0::nat))"
  by (rule setEndState_frontier_monotone)

lemma isValid_frontier_update [simp]:
  "isValid (st\<lparr>invalidLineStartIndex := x\<rparr>) j = isValid st j"
  by (simp add: isValid_def)

lemma getBeginState_frontier_update [simp]:
  "getBeginState (st\<lparr>invalidLineStartIndex := x\<rparr>) j = getBeginState st j"
  by (simp add: getBeginState_def)

lemma store_wf_frontier_update [simp]:
  "store_wf (st\<lparr>invalidLineStartIndex := x\<rparr>) = store_wf st"
  by (simp add: store_wf_def)

lemma isValid_less_len: "isValid st j \<Longrightarrow> j < len st"
  by (simp add: isValid_def split: if_splits)

lemma setEndState_loop_le_len:
  assumes "i \<le> len st"
  shows "setEndState_loop st n i \<le> len st"
proof (cases "setEndState_loop st n i = i")
  case True
  with assms show ?thesis by simp
next
  case False
  with setEndState_loop_ge [of i st n] have "i \<le> setEndState_loop st n i - 1"
    and "setEndState_loop st n i - 1 < setEndState_loop st n i" by simp_all
  then have "isValid st (setEndState_loop st n i - 1)"
    using setEndState_loop_skipped by blast
  then show ?thesis using isValid_less_len by fastforce
qed

text \<open>
  Claim C1 (skip-ahead correctness of \<open>setEndState\<close>): on a store whose arrays have
  length \<open>_len\<close>, if \<open>setEndState(linesLength, i, s)\<close> runs for a line index \<open>i\<close> and
  \<open>s.equals\<close> the cached begin state of line \<open>i + 1\<close>, then every index \<open>j \<ge> i + 1\<close>
  that was valid before the call is valid after it, and the invalid frontier is the first
  index \<open>j \<ge> i + 1\<close> that was invalid before the call or is out of range
  (\<open>j \<ge> linesLength\<close>): it is at least \<open>i + 1\<close>, every index from \<open>i + 1\<close> below it was
  valid and below \<open>linesLength\<close>, it is itself invalid when below \<open>linesLength\<close>, and
  it is at most \<open>linesLength\<close> when \<open>i\<close> is a line of the buffer.
\<close>

theorem setEndState_skip_ahead:
  assumes wf: "store_wf st" and i0: "0 \<le> lineIndex"
    and prev: "getBeginState st (lineIndex + 1) = Some previousEndState"
    and eq: "equals endState previousEndState"
  shows "(\<forall>j. lineIndex + 1 \<le> j \<and> isValid st j
              \<longrightarrow> isValid (setEndState equals st linesLength lineIndex endState) j)
       \<and> lineIndex + 1 \<le> invalidLineStartIndex (setEndState equals st linesLength lineIndex endState)
       \<and> (\<forall>j. lineIndex + 1 \<le> j
               \<and> j < invalidLineStartIndex (setEndState equals st linesLength lineIndex endState)
              \<longrightarrow> isValid st j \<and> j < linesLength)
       \<and> (invalidLineStartIndex (setEndState equals st linesLength lineIndex endState) < linesLength
            \<longrightarrow> \<not> isValid st (invalidLineStartIndex (setEndState equals st linesLength lineIndex endState)))
       \<and> (lineIndex < linesLength
            \<longrightarrow> invalidLineStartIndex (setEndState equals st linesLength lineIndex endState) \<le> linesLength)"
proof -
  let ?st2 = "(setValid st lineIndex True)\<lparr>invalidLineStartIndex := lineIndex + 1\<rparr>"
  let ?st' = "setEndState equals st linesLength lineIndex endState"
  have valid2: "isValid ?st2 j = isValid st j" if "lineIndex + 1 \<le> j" for j
    using that wf i0 by (simp add: setValid_isValid)
  have prev2: "getBeginState ?st2 (lineIndex + 1) = Some previousEndState"
    using wf prev by (simp add: setValid_getBeginState)
  show ?thesis
  proof (cases "lineIndex = linesLength - 1")
    case True
    then have st': "?st' = ?st2" by (simp add: setEndState_def Let_def)
    have "invalidLineStartIndex ?st' = lineIndex + 1" by (simp add: st')
    then have fr: "invalidLineStartIndex ?st' = linesLength" using True by simp
    have c1: "\<forall>j. lineIndex + 1 \<le> j \<and> isValid st j \<longrightarrow> isValid ?st' j"
      using valid2 by (simp add: st')
    have c2: "lineIndex + 1 \<le> invalidLineStartIndex ?st'" using fr True by simp
    have c3: "\<forall>j. lineIndex + 1 \<le> j \<and> j < invalidLineStartIndex ?st'
                \<longrightarrow> isValid st j \<and> j < linesLength"
      using fr True by auto
    from c1 c2 c3 fr show ?thesis by simp
  next
    case False
    let ?f = "setEndState_loop ?st2 linesLength (lineIndex + 1)"
    have st': "?st' = ?st2\<lparr>invalidLineStartIndex := ?f\<rparr>"
      using False prev2 eq by (simp add: setEndState_def Let_def)
    have floop: "?f = setEndState_loop st linesLength (lineIndex + 1)"
      by (rule setEndState_loop_cong) (rule valid2)
    have fr: "invalidLineStartIndex ?st' = setEndState_loop st linesLength (lineIndex + 1)"
      using floop by (simp add: st')
    have c1: "\<forall>j. lineIndex + 1 \<le> j \<and> isValid st j \<longrightarrow> isValid ?st' j"
      using valid2 by (simp add: st')
    have c2: "lineIndex + 1 \<le> invalidLineStartIndex ?st'"
      unfolding fr by (rule setEndState_loop_ge)
    have c3: "\<forall>j. lineIndex + 1 \<le> j \<and> j < invalidLineStartIndex ?st'
                \<longrightarrow> isValid st j \<and> j < linesLength"
      unfolding fr using setEndState_loop_skipped by blast
    have c4: "invalidLineStartIndex ?st' < linesLength \<longrightarrow> \<not> isValid st (invalidLineStartIndex ?st')"
      unfolding fr using setEndState_loop_stop by blast
    have c5: "lineIndex < linesLength \<longrightarrow> invalidLineStartIndex ?st' \<le> linesLength"
      unfolding fr using setEndState_loop_le [of "lineIndex + 1" linesLength st] by simp
    from c1 c2 c3 c4 c5 show ?thesis by blast
  qed
qed

definition skip_store :: "nat TokenizationStateStore" where
  "skip_store = \<lparr> beginState = [Some 0, Some 0, Some 0, None],
                  valid = [False, True, True, False],
                  len = 4, invalidLineStartIndex = 0 \<rparr>"

theorem setEndState_skip_ahead_witness:
  "store_wf skip_store \<and> getBeginState skip_store (0 + 1) = Some 0
   \<and> isValid skip_store 1 \<and> isValid skip_store 2 \<and> \<not> isValid skip_store 3
   \<and> isValid (setEndState (=) skip_store 4 0 0) 1
   \<and> isValid (setEndState (=) skip_store 4 0 0) 2
   \<and> invalidLineStartIndex (setEndState (=) skip_store 4 0 0) = 3"
proof -
  let ?f = "invalidLineStartIndex (setEndState (=) skip_store 4 0 0)"
  have h1: "store_wf skip_store" by (simp add: store_wf_def skip_store_def)
  have h2: "(0::int) \<le> 0" by simp
  have h3: "getBeginState skip_store (0 + 1) = Some 0"
    by (simp add: getBeginState_def arr_get_def skip_store_def)
  have h4: "(0::nat) = 0" by simp
  have v1: "isValid skip_store 1" and v2: "isValid skip_store 2" and v3: "\<not> isValid skip_store 3"
    by (simp_all add: isValid_def arr_get_def skip_store_def)
  note T = setEndState_skip_ahead [where st = skip_store and lineIndex = 0
      and previousEndState = 0 and equals = "(=)" and endState = 0 and linesLength = 4,
      OF h1 h2 h3 h4]
  from T v1 v2 have a: "isValid (setEndState (=) skip_store 4 0 0) 1"
    and b: "isValid (setEndState (=) skip_store 4 0 0) 2" by simp_all
  from T have lo: "1 \<le> ?f" and hi: "?f \<le> 4" by simp_all
  from T v3 have "\<not> 3 < ?f" by force
  with lo have "?f = 1 \<or> ?f = 2 \<or> ?f = 3" by arith
  moreover from T have "?f < 4 \<longrightarrow> \<not> isValid skip_store ?f" by blast
  ultimately have "?f = 3" using v1 v2 by auto
  with h1 h3 v1 v2 v3 a b show ?thesis by simp
qed

lemma acceptDeleteRange_frontier:
  "invalidLineStartIndex (acceptDeleteRange st rng) = invalidLineStartIndex st"
  by (simp add: acceptDeleteRange_def deleteLines_def Let_def)

lemma acceptInsertText_frontier:
  "invalidLineStartIndex (acceptInsertText st position eolCount) = invalidLineStartIndex st"
  by (simp add: acceptInsertText_def insertLines_def Let_def)

lemma applyEdits_loop_frontier:
  "invalidLineStartIndex (applyEdits_loop st rng j)
     = (if 0 \<le> j then min (invalidLineStartIndex st) (startLineNumber rng - 1)
        else invalidLineStartIndex st)"
  by (induction st rng j rule: applyEdits_loop.induct)
     (subst applyEdits_loop.simps, auto simp: invalidateLine_frontier)

lemma applyEdits_loop_len: "len (applyEdits_loop st rng j) = len st"
  by (induction st rng j rule: applyEdits_loop.induct)
     (subst applyEdits_loop.simps, simp add: invalidateLine_len)

lemma applyEdits_loop_wf: "store_wf st \<Longrightarrow> store_wf (applyEdits_loop st rng j)"
  by (induction st rng j rule: applyEdits_loop.induct)
     (subst applyEdits_loop.simps, simp add: invalidateLine_wf)

lemma applyEdits_loop_beginState: "beginState (applyEdits_loop st rng j) = beginState st"
  by (induction st rng j rule: applyEdits_loop.induct)
     (subst applyEdits_loop.simps, simp add: invalidateLine_beginState)

lemma applyEdits_loop_isValid:
  "store_wf st \<Longrightarrow>
   isValid (applyEdits_loop st rng j) n
     = (isValid st n \<and> \<not> (startLineNumber rng - 1 \<le> n \<and> n \<le> startLineNumber rng - 1 + j))"
proof (induction st rng j rule: applyEdits_loop.induct)
  case (1 st rng j)
  show ?case
  proof (cases "j \<ge> 0")
    case True
    let ?st = "invalidateLine st (startLineNumber rng + j - 1)"
    have "store_wf ?st" using "1.prems" by (rule invalidateLine_wf)
    with "1.IH" [OF True] have "isValid (applyEdits_loop ?st rng (j - 1)) n
      = (isValid ?st n \<and> \<not> (startLineNumber rng - 1 \<le> n \<and> n \<le> startLineNumber rng - 1 + (j - 1)))"
      by simp
    then show ?thesis
      using True "1.prems"
      by (subst applyEdits_loop.simps) (auto simp: invalidateLine_isValid)
  next
    case False
    then show ?thesis by (subst applyEdits_loop.simps) auto
  qed
qed

lemma applyEdits_loop_foldl:
  "applyEdits_loop st rng j
     = foldl invalidateLine st (map (\<lambda>j. startLineNumber rng + j - 1) (rev [0..j]))"
proof (induction st rng j rule: applyEdits_loop.induct)
  case (1 st rng j)
  show ?case
  proof (cases "j \<ge> 0")
    case True
    then have "[0..j] = [0..j - 1] @ [j]" by (simp add: upto_rec2)
    with "1.IH" [OF True] True show ?thesis
      by (subst applyEdits_loop.simps) simp
  next
    case False
    then show ?thesis by (subst applyEdits_loop.simps) simp
  qed
qed

text \<open>
  Claim C4 (frontier regress on edit): for every store, after
  \<open>applyEdits(range, insertedLineCount)\<close> with a range whose end line is not above its
  start line and a line count that is not negative, where \<open>range.startLine - 1\<close> is below
  the invalid frontier before the call, the invalid frontier after the call is at most
  \<open>range.startLine - 1\<close>.
\<close>

theorem applyEdits_frontier_regress:
  assumes "startLineNumber rng \<le> endLineNumber rng" and "0 \<le> eolCount"
    and "startLineNumber rng - 1 < invalidLineStartIndex st"
  shows "invalidLineStartIndex (applyEdits st rng eolCount) \<le> startLineNumber rng - 1"
  using assms
  by (simp add: applyEdits_def Let_def acceptInsertText_frontier acceptDeleteRange_frontier
        applyEdits_loop_frontier)

definition edit_store :: "nat TokenizationStateStore" where
  "edit_store = \<lparr> beginState = [Some 0, Some 0, Some 0],
                  valid = [True, True, True],
                  len = 3, invalidLineStartIndex = 3 \<rparr>"

definition edit_range :: IRange where
  "edit_range = \<lparr> startLineNumber = 2, startColumn = 1, endLineNumber = 2, endColumn = 1 \<rparr>"

theorem applyEdits_frontier_regress_witness:
  "startLineNumber edit_range \<le> endLineNumber edit_range
   \<and> startLineNumber edit_range - 1 < invalidLineStartIndex edit_store
   \<and> invalidLineStartIndex (applyEdits edit_store edit_range 0) \<le> 1"
proof -
  have h1: "startLineNumber edit_range \<le> endLineNumber edit_range"
    by (simp add: edit_range_def)
  have h2: "(0::int) \<le> 0" by simp
  have h3: "startLineNumber edit_range - 1 < invalidLineStartIndex edit_store"
    by (simp add: edit_range_def edit_store_def)
  from applyEdits_frontier_regress [OF h1 h2 h3] h1 h3 show ?thesis
    by (simp add: edit_range_def)
qed

subsection \<open>The bounded-frontier invariant\<close>

lemma splice_arr_length:
  "0 \<le> s \<Longrightarrow> 0 \<le> d \<Longrightarrow> s + d \<le> int (length xs)
     \<Longrightarrow> int (length (splice_arr xs s d)) = int (length xs) - d"
  by (auto simp: splice_arr_def Let_def min_def max_def)

lemma arrayInsert_length:
  "0 \<le> i \<Longrightarrow> i \<le> int (length xs)
     \<Longrightarrow> int (length (arrayInsert xs i ys)) = int (length xs) + int (length ys)"
  by (simp add: arrayInsert_def)

lemma acceptDeleteRange_wf:
  assumes "store_wf st" and "1 \<le> startLineNumber rng"
    and "startLineNumber rng \<le> endLineNumber rng"
  shows "store_wf (acceptDeleteRange st rng)"
  using assms
  by (auto simp: acceptDeleteRange_def deleteLines_def Let_def store_wf_def splice_arr_length)

lemma acceptDeleteRange_len:
  assumes "1 \<le> startLineNumber rng" and "startLineNumber rng \<le> endLineNumber rng"
  shows "min (len st) (startLineNumber rng) \<le> len (acceptDeleteRange st rng)"
  using assms by (auto simp: acceptDeleteRange_def deleteLines_def Let_def)

lemma acceptInsertText_wf:
  assumes "store_wf st" and "1 \<le> lineNumber position" and "0 \<le> eolCount"
  shows "store_wf (acceptInsertText st position eolCount)"
  using assms
  by (auto simp: acceptInsertText_def insertLines_def Let_def store_wf_def arrayInsert_length)

lemma acceptInsertText_len:
  assumes "0 \<le> eolCount"
  shows "len st \<le> len (acceptInsertText st position eolCount)"
  using assms by (auto simp: acceptInsertText_def insertLines_def Let_def)

definition store_inv :: "'s TokenizationStateStore \<Rightarrow> bool" where
  "store_inv st =
     (store_wf st \<and> 0 \<le> invalidLineStartIndex st \<and> invalidLineStartIndex st \<le> len st)"

lemma new_store_inv: "store_inv new_store"
  by (simp add: store_inv_def store_wf_def new_store_def)

lemma flush_inv: "store_inv (flush st initialState)"
proof (cases initialState)
  case None
  then show ?thesis by (simp add: flush_def reset_def store_inv_def store_wf_def)
next
  case (Some s)
  let ?e = "st\<lparr>beginState := [], valid := [], len := 0, invalidLineStartIndex := 0\<rparr>"
  have "store_wf ?e" by (simp add: store_wf_def)
  then have "store_wf (setBeginState ?e 0 (Some s))" by (rule setBeginState_wf)
  then show ?thesis
    using Some
    by (simp add: flush_def reset_def store_inv_def setBeginState_frontier setBeginState_len)
qed

lemma setFakeTokens_inv:
  assumes "store_inv st"
  shows "store_inv (setFakeTokens st lineIndex)"
  using assms
  by (auto simp: setFakeTokens_def store_inv_def setValid_wf setValid_frontier setValid_len)

lemma setEndState_wf:
  assumes "store_wf st"
  shows "store_wf (setEndState equals st linesLength lineIndex endState)"
  using assms
  by (simp add: setEndState_def Let_def setValid_wf setBeginState_wf invalidateLine_wf
        split: option.splits)

lemma setEndState_len_bound:
  "invalidLineStartIndex (setEndState equals st linesLength lineIndex endState)
     \<le> len (setEndState equals st linesLength lineIndex endState)"
proof -
  let ?st2 = "(setValid st lineIndex True)\<lparr>invalidLineStartIndex := lineIndex + 1\<rparr>"
  have "lineIndex + 1 \<le> len ?st2" by (simp add: setValid_len)
  then have "setEndState_loop ?st2 linesLength (lineIndex + 1) \<le> len ?st2"
    by (rule setEndState_loop_le_len)
  then show ?thesis
    by (auto simp: setEndState_def Let_def setValid_len setBeginState_len setBeginState_frontier
          invalidateLine_len invalidateLine_frontier split: option.splits)
qed

lemma setEndState_inv:
  assumes "store_inv st" and "0 \<le> lineIndex"
  shows "store_inv (setEndState equals st linesLength lineIndex endState)"
proof -
  have "0 \<le> invalidLineStartIndex (setEndState equals st linesLength lineIndex endState)"
    using setEndState_frontier_ge [of lineIndex equals st linesLength endState] assms(2)
    by simp
  with assms(1) show ?thesis
    by (simp add: store_inv_def setEndState_wf setEndState_len_bound)
qed

lemma applyEdits_inv:
  assumes inv: "store_inv st" and s1: "1 \<le> startLineNumber rng"
    and se: "startLineNumber rng \<le> endLineNumber rng" and e0: "0 \<le> eolCount"
  shows "store_inv (applyEdits st rng eolCount)"
proof -
  let ?k = "min (endLineNumber rng - startLineNumber rng) eolCount"
  let ?st1 = "applyEdits_loop st rng ?k"
  let ?st2 = "acceptDeleteRange ?st1 rng"
  let ?p = "\<lparr> lineNumber = startLineNumber rng, column = startColumn rng \<rparr>"
  let ?st3 = "acceptInsertText ?st2 ?p eolCount"
  have k0: "0 \<le> ?k" using se e0 by simp
  have st3: "applyEdits st rng eolCount = ?st3" by (simp add: applyEdits_def Let_def)
  have wf1: "store_wf ?st1" using inv by (simp add: store_inv_def applyEdits_loop_wf)
  have wf2: "store_wf ?st2" using wf1 s1 se by (rule acceptDeleteRange_wf)
  have wf3: "store_wf ?st3" using wf2 s1 e0 by (simp add: acceptInsertText_wf)
  have f1: "invalidLineStartIndex ?st1
              = min (invalidLineStartIndex st) (startLineNumber rng - 1)"
    using k0 by (simp only: applyEdits_loop_frontier if_True)
  have f3: "invalidLineStartIndex ?st3 = invalidLineStartIndex ?st1"
    by (simp only: acceptInsertText_frontier acceptDeleteRange_frontier)
  have l1: "len ?st1 = len st" by (rule applyEdits_loop_len)
  have "min (len st) (startLineNumber rng) \<le> len ?st2"
    using acceptDeleteRange_len [OF s1 se, of ?st1] l1 by simp
  moreover have "len ?st2 \<le> len ?st3" using e0 by (rule acceptInsertText_len)
  ultimately have l3: "min (len st) (startLineNumber rng) \<le> len ?st3" by simp
  have "0 \<le> invalidLineStartIndex ?st3" using inv s1 f1 f3 by (simp add: store_inv_def)
  moreover have "invalidLineStartIndex ?st3 \<le> len ?st3"
    using inv f1 f3 l3 by (simp add: store_inv_def min_def split: if_splits)
  ultimately show ?thesis using wf3 by (simp add: store_inv_def st3)
qed

text \<open>
  The stores a client can reach through the public interface: the constructor, then
  \<open>flush\<close>, \<open>setEndState\<close>, \<open>setFakeTokens\<close> and \<open>applyEdits\<close> in any order
  (\<open>getBeginState\<close> and the getter \<open>invalidLineStartIndex\<close> only read). Line indices
  are not negative, ranges are ranges of 1-based line numbers with the start not after
  the end, and an end-of-line count is not negative.
\<close>

inductive reachable :: "('s \<Rightarrow> 's \<Rightarrow> bool) \<Rightarrow> 's TokenizationStateStore \<Rightarrow> bool"
  for equals :: "'s \<Rightarrow> 's \<Rightarrow> bool" where
  r_new: "reachable equals new_store"
| r_flush: "reachable equals st \<Longrightarrow> reachable equals (flush st initialState)"
| r_setEndState: "reachable equals st \<Longrightarrow> 0 \<le> lineIndex
     \<Longrightarrow> reachable equals (setEndState equals st linesLength lineIndex endState)"
| r_setFakeTokens: "reachable equals st \<Longrightarrow> 0 \<le> lineIndex
     \<Longrightarrow> reachable equals (setFakeTokens st lineIndex)"
| r_applyEdits: "reachable equals st \<Longrightarrow> 1 \<le> startLineNumber rng
     \<Longrightarrow> startLineNumber rng \<le> endLineNumber rng \<Longrightarrow> 0 \<le> eolCount
     \<Longrightarrow> reachable equals (applyEdits st rng eolCount)"

lemma reachable_inv: "reachable equals st \<Longrightarrow> store_inv st"
proof (induction rule: reachable.induct)
  case r_new
  show ?case by (rule new_store_inv)
next
  case (r_flush st initialState)
  show ?case by (rule flush_inv)
next
  case (r_setEndState st lineIndex linesLength endState)
  then show ?case by (simp add: setEndState_inv)
next
  case (r_setFakeTokens st lineIndex)
  then show ?case by (simp add: setFakeTokens_inv)
next
  case (r_applyEdits st rng eolCount)
  then show ?case by (simp add: applyEdits_inv)
qed

text \<open>
  Claim C2 (bounded frontier): every store reachable through the public operations
  \<open>flush\<close>, \<open>getBeginState\<close>, \<open>setEndState\<close>, \<open>setFakeTokens\<close> and \<open>applyEdits\<close>
  has \<open>0 \<le> invalidLineStartIndex \<le> _len\<close>; each operation preserves the bound
  (together with \<open>_len\<close> being the length of both arrays), which is how the proof goes:
  by induction on the operations that built the store.
\<close>

theorem frontier_bounded:
  assumes "reachable equals st"
  shows "0 \<le> invalidLineStartIndex st \<and> invalidLineStartIndex st \<le> len st"
  using reachable_inv [OF assms] by (simp add: store_inv_def)

definition bounded_example :: "nat TokenizationStateStore" where
  "bounded_example =
     setEndState (=)
       (applyEdits (setFakeTokens (setEndState (=) (flush new_store (Some 0)) 3 0 0) 2)
          \<lparr> startLineNumber = 1, startColumn = 1, endLineNumber = 2, endColumn = 1 \<rparr> 1)
       3 0 0"

theorem frontier_bounded_witness:
  "reachable (=) bounded_example
   \<and> 0 \<le> invalidLineStartIndex bounded_example
   \<and> invalidLineStartIndex bounded_example \<le> len bounded_example
   \<and> invalidLineStartIndex bounded_example = 1 \<and> len bounded_example = 3"
proof -
  have "reachable (=) bounded_example"
    unfolding bounded_example_def
    by (intro reachable.intros) simp_all
  moreover have "invalidLineStartIndex bounded_example = 1" and "len bounded_example = 3"
    by code_simp+
  ultimately show ?thesis using frontier_bounded [of "(=)" bounded_example] by simp
qed

subsection \<open>The indices an edit invalidates\<close>

text \<open>
  Claim C5 as stated (\<open>applyEdits\<close> invalidates the entries at index
  \<open>range.startLine - 1 + j - 1\<close> for \<open>j = k, \<dots>, 0\<close>) fails: the loop calls
  \<open>_invalidateLine(range.startLineNumber + j - 1)\<close>. For an edit inside line 2 of a
  fully valid three-line store (\<open>k = 0\<close>) the claimed index is 0; the code leaves entry
  0 valid, clears entry 1 and lowers the frontier to 1.
\<close>

theorem applyEdits_claimed_index_counterexample:
  "min (endLineNumber edit_range - startLineNumber edit_range) 0 = 0
   \<and> startLineNumber edit_range - 1 + 0 - 1 = 0
   \<and> isValid edit_store 0 \<and> isValid edit_store 1
   \<and> invalidLineStartIndex edit_store = 3
   \<and> isValid (applyEdits edit_store edit_range 0) 0
   \<and> \<not> isValid (applyEdits edit_store edit_range 0) 1
   \<and> invalidLineStartIndex (applyEdits edit_store edit_range 0) = 1"
  by code_simp

text \<open>
  Claim C5, amended: with \<open>k = min(deletedLineCount, insertedLineCount)\<close>,
  \<open>applyEdits(range, insertedLineCount)\<close> first runs the invalidation loop and only then
  the delete and the insert splice; the loop invalidates the entries at index
  \<open>range.startLine - 1 + j\<close> for \<open>j = k\<close> down to \<open>0\<close> (none when \<open>k\<close> is negative),
  that is exactly the indices from \<open>range.startLine - 1\<close> to \<open>range.startLine - 1 + k\<close>:
  their valid bits are false afterwards, every other valid bit, every begin state and
  \<open>_len\<close> are as before, and the frontier is lowered to \<open>range.startLine - 1\<close> when
  that is below it. Invalidating one entry clears its valid bit and lowers the frontier
  to its index when the index is below the frontier.
\<close>

theorem applyEdits_invalidation:
  fixes st :: "'s TokenizationStateStore" and rng :: IRange and eolCount k :: int
  defines "k \<equiv> min (endLineNumber rng - startLineNumber rng) eolCount"
  assumes wf: "store_wf st"
  shows "applyEdits st rng eolCount
           = acceptInsertText (acceptDeleteRange (applyEdits_loop st rng k) rng)
               \<lparr> lineNumber = startLineNumber rng, column = startColumn rng \<rparr> eolCount
       \<and> applyEdits_loop st rng k
           = foldl invalidateLine st (map (\<lambda>j. startLineNumber rng - 1 + j) (rev [0..k]))
       \<and> (\<forall>n. isValid (applyEdits_loop st rng k) n
                = (isValid st n
                   \<and> \<not> (startLineNumber rng - 1 \<le> n \<and> n \<le> startLineNumber rng - 1 + k)))
       \<and> (\<forall>n. getBeginState (applyEdits_loop st rng k) n = getBeginState st n)
       \<and> len (applyEdits_loop st rng k) = len st
       \<and> invalidLineStartIndex (applyEdits_loop st rng k)
           = (if 0 \<le> k then min (invalidLineStartIndex st) (startLineNumber rng - 1)
              else invalidLineStartIndex st)
       \<and> (\<forall>i n. isValid (invalidateLine st i) n = (isValid st n \<and> n \<noteq> i))
       \<and> (\<forall>i. invalidLineStartIndex (invalidateLine st i)
                = (if i < invalidLineStartIndex st then i else invalidLineStartIndex st))"
proof -
  have a: "applyEdits st rng eolCount
           = acceptInsertText (acceptDeleteRange (applyEdits_loop st rng k) rng)
               \<lparr> lineNumber = startLineNumber rng, column = startColumn rng \<rparr> eolCount"
    by (simp add: applyEdits_def Let_def k_def)
  have "(\<lambda>j. startLineNumber rng + j - 1) = (\<lambda>j. startLineNumber rng - 1 + j)"
    by (rule ext) simp
  then have b: "applyEdits_loop st rng k
           = foldl invalidateLine st (map (\<lambda>j. startLineNumber rng - 1 + j) (rev [0..k]))"
    using applyEdits_loop_foldl [of st rng k] by simp
  have c: "\<forall>n. isValid (applyEdits_loop st rng k) n
                = (isValid st n
                   \<and> \<not> (startLineNumber rng - 1 \<le> n \<and> n \<le> startLineNumber rng - 1 + k))"
    using wf by (simp add: applyEdits_loop_isValid)
  have d: "\<forall>n. getBeginState (applyEdits_loop st rng k) n = getBeginState st n"
    by (simp add: getBeginState_def applyEdits_loop_beginState applyEdits_loop_len)
  have e: "\<forall>i n. isValid (invalidateLine st i) n = (isValid st n \<and> n \<noteq> i)"
    using wf by (simp add: invalidateLine_isValid)
  have f: "\<forall>i. invalidLineStartIndex (invalidateLine st i)
                = (if i < invalidLineStartIndex st then i else invalidLineStartIndex st)"
    by (simp add: invalidateLine_frontier min_def)
  have g: "len (applyEdits_loop st rng k) = len st"
    by (rule applyEdits_loop_len)
  have h: "invalidLineStartIndex (applyEdits_loop st rng k)
           = (if 0 \<le> k then min (invalidLineStartIndex st) (startLineNumber rng - 1)
              else invalidLineStartIndex st)"
    by (rule applyEdits_loop_frontier)
  show ?thesis
    by (intro conjI a b c d g h e f)
qed

definition replace_store :: "nat TokenizationStateStore" where
  "replace_store = \<lparr> beginState = [Some 0, Some 0, Some 0, Some 0, Some 0],
                     valid = [True, True, True, True, True],
                     len = 5, invalidLineStartIndex = 5 \<rparr>"

definition replace_range :: IRange where
  "replace_range = \<lparr> startLineNumber = 2, startColumn = 1, endLineNumber = 3, endColumn = 1 \<rparr>"

theorem applyEdits_invalidation_witness:
  "store_wf replace_store
   \<and> min (endLineNumber replace_range - startLineNumber replace_range) 1 = 1
   \<and> isValid (applyEdits_loop replace_store replace_range 1) 0
   \<and> \<not> isValid (applyEdits_loop replace_store replace_range 1) 1
   \<and> \<not> isValid (applyEdits_loop replace_store replace_range 1) 2
   \<and> isValid (applyEdits_loop replace_store replace_range 1) 3
   \<and> invalidLineStartIndex (applyEdits_loop replace_store replace_range 1) = 1
   \<and> applyEdits replace_store replace_range 1
       = \<lparr> beginState = [Some 0, Some 0, None, Some 0, Some 0],
           valid = [True, False, False, True, True],
           len = 5, invalidLineStartIndex = 1 \<rparr>"
proof -
  have h: "store_wf replace_store" by (simp add: store_wf_def replace_store_def)
  have k: "min (endLineNumber replace_range - startLineNumber replace_range) 1 = 1"
    by (simp add: replace_range_def)
  have s: "startLineNumber replace_range = 2" by (simp add: replace_range_def)
  have v: "isValid replace_store 0" "isValid replace_store 1" "isValid replace_store 2"
    "isValid replace_store 3"
    by (simp_all add: isValid_def arr_get_def replace_store_def)
  have f: "invalidLineStartIndex replace_store = 5" by (simp add: replace_store_def)
  have r: "applyEdits replace_store replace_range 1
       = \<lparr> beginState = [Some 0, Some 0, None, Some 0, Some 0],
           valid = [True, False, False, True, True],
           len = 5, invalidLineStartIndex = 1 \<rparr>"
    by code_simp
  note T = applyEdits_invalidation [OF h, of replace_range 1]
  note V = T [THEN conjunct2, THEN conjunct2, THEN conjunct1, rule_format]
  note F = T [THEN conjunct2, THEN conjunct2, THEN conjunct2, THEN conjunct2,
      THEN conjunct2, THEN conjunct1]
  have v0: "isValid (applyEdits_loop replace_store replace_range 1) 0"
    using V [of 0] v k s by simp
  have v1: "\<not> isValid (applyEdits_loop replace_store replace_range 1) 1"
    using V [of 1] v k s by simp
  have v2: "\<not> isValid (applyEdits_loop replace_store replace_range 1) 2"
    using V [of 2] v k s by simp
  have v3: "isValid (applyEdits_loop replace_store replace_range 1) 3"
    using V [of 3] v k s by simp
  have fr: "invalidLineStartIndex (applyEdits_loop replace_store replace_range 1) = 1"
    using F f k s by simp
  from h k v0 v1 v2 v3 fr r show ?thesis by (intro conjI)
qed

section \<open>Tokenizers, tokens and the text model\<close>

text \<open>
  \<open>IState\<close>: an opaque state with the methods \<open>clone\<close> and \<open>equals\<close>. The
  methods are passed as a record; \<open>equals S a b\<close> is \<open>a.equals(b)\<close>.
\<close>

record 's IState_methods =
  clone :: "'s \<Rightarrow> 's"
  equals :: "'s \<Rightarrow> 's \<Rightarrow> bool"

text \<open>\<open>StandardTokenType\<close> (vs/editor/common/languages).\<close>

datatype StandardTokenType = Other | Comment | String | RegEx

text \<open>
  \<open>EncodedTokenizationResult\<close>: the token array and the end state. The source's
  \<open>Uint32Array\<close> holds pairs (offset, metadata); the model keeps the pairs, with the
  metadata of an opaque type \<open>'m\<close>.
\<close>

record ('s, 'm) EncodedTokenizationResult =
  tokens :: "(int \<times> 'm) list"
  endState :: 's

text \<open>
  \<open>ITokenizationSupport\<close>: both methods may throw; \<open>Inl e\<close> is the exception \<open>e\<close>.
\<close>

record ('s, 'e, 'm) ITokenizationSupport =
  getInitialState :: "'e + 's"
  tokenizeEncoded :: "string \<Rightarrow> bool \<Rightarrow> 's \<Rightarrow> 'e + ('s, 'm) EncodedTokenizationResult"

text \<open>
  The token helpers the source imports from \<open>LineTokens\<close> and \<open>nullMode\<close>, whose
  code is not part of it, as parameters: the metadata the null tokenizer gives its one
  token for an encoded language id, and the two queries of \<open>LineTokens\<close> the
  character-insertion probe makes.
\<close>

record 'm LineTokens_methods =
  nullMetadata :: "int \<Rightarrow> 'm"
  findTokenIndexAtOffset :: "(int \<times> 'm) list \<Rightarrow> int \<Rightarrow> int"
  getStandardTokenType :: "(int \<times> 'm) list \<Rightarrow> int \<Rightarrow> StandardTokenType"

text \<open>
  Modelled from the spec: \<open>nullTokenizeEncoded\<close> (vs/editor/common/languages/nullMode)
  is imported by the source and not part of it. The spec: "a null tokenization: a single
  token covering the entire line with default attributes, and \<open>endState = state\<close>
  unchanged". The one token starts at offset 0.
\<close>

definition nullTokenizeEncoded ::
  "'m LineTokens_methods \<Rightarrow> int \<Rightarrow> 's \<Rightarrow> ('s, 'm) EncodedTokenizationResult" where
  "nullTokenizeEncoded H languageId state =
     \<lparr> tokens = [(0, nullMetadata H languageId)], endState = state \<rparr>"

text \<open>
  Modelled from the spec: \<open>LineTokens.convertToEndOffset\<close> is imported by the source
  and not part of it. The spec: "the external tokenizer returns offsets from the start
  of \<open>text\<close>; the engine stores them as absolute end offsets capped at
  \<open>text.length\<close>": every token ends where the next one starts, the last one at the
  length of the line.
\<close>

fun convertToEndOffset :: "(int \<times> 'm) list \<Rightarrow> int \<Rightarrow> (int \<times> 'm) list" where
  "convertToEndOffset [] lineTextLength = []"
| "convertToEndOffset [(startOffset, m)] lineTextLength = [(lineTextLength, m)]"
| "convertToEndOffset ((startOffset, m) # (nextOffset, m') # ts) lineTextLength =
     (nextOffset, m) # convertToEndOffset ((nextOffset, m') # ts) lineTextLength"

text \<open>
  \<open>safeTokenize\<close>. The result is paired with the errors handed to
  \<open>onUnexpectedError\<close>, in order.
\<close>

definition safeTokenize ::
  "'s IState_methods \<Rightarrow> 'm LineTokens_methods \<Rightarrow> (string \<Rightarrow> int) \<Rightarrow> string
     \<Rightarrow> ('s, 'e, 'm) ITokenizationSupport option \<Rightarrow> string \<Rightarrow> bool \<Rightarrow> 's
     \<Rightarrow> ('s, 'm) EncodedTokenizationResult \<times> 'e list" where
  "safeTokenize S H encodeLanguageId languageId support text hasEOL state =
     (let (r0, errs) =
            (case support of
               None \<Rightarrow> (None, [])
             | Some T \<Rightarrow>
                 (case tokenizeEncoded T text hasEOL (clone S state) of
                    Inl e \<Rightarrow> (None, [e])
                  | Inr r \<Rightarrow> (Some r, [])));
          r1 = (case r0 of
                  None \<Rightarrow> nullTokenizeEncoded H (encodeLanguageId languageId) state
                | Some r \<Rightarrow> r)
      in (r1\<lparr> tokens := convertToEndOffset (tokens r1) (int (length text)) \<rparr>, errs))"

text \<open>
  The text model (\<open>TextModel\<close>, vs/editor/common/model/textModel, imported by the
  source and not part of it), as parameters: the queries the engine makes of it, each a
  field. The last field records what the engine has sent it: \<open>setTokensCalls\<close>
  lists the arguments of the calls of \<open>setTokens\<close>, oldest first.
\<close>

record 'm TextModel =
  getLineCount :: int
  getLineContent :: "int \<Rightarrow> string"
  getLineLength :: "int \<Rightarrow> int"
  getLineFirstNonWhitespaceColumn :: "int \<Rightarrow> int"
  getLanguageId :: string
  isAttachedToEditor :: bool
  isTooLargeForTokenization :: bool
  setTokensCalls :: "((int \<times> (int \<times> 'm) list) list \<times> bool) list"


section \<open>TextModelTokenization\<close>

definition CHEAP_TOKENIZATION_LENGTH_LIMIT :: int where
  "CHEAP_TOKENIZATION_LENGTH_LIMIT = 2048"

text \<open>
  The fields of the class, and \<open>unexpectedErrors\<close>: the errors handed to
  \<open>onUnexpectedError\<close> so far, oldest first.
\<close>

record ('s, 'e, 'm) TextModelTokenization =
  tokenizationStateStore :: "'s TokenizationStateStore"
  isDisposed :: bool
  tokenizationSupport :: "('s, 'e, 'm) ITokenizationSupport option"
  textModel :: "'m TextModel"
  encodeLanguageId :: "string \<Rightarrow> int"
  isScheduled :: bool
  unexpectedErrors :: "'e list"


text \<open>\<open>_hasLinesToTokenize\<close> and \<open>isCheapToTokenize\<close>\<close>

definition hasLinesToTokenize :: "('s, 'e, 'm) TextModelTokenization \<Rightarrow> bool" where
  "hasLinesToTokenize eng =
     (case tokenizationSupport eng of
        None \<Rightarrow> False
      | Some T \<Rightarrow>
          invalidLineStartIndex (tokenizationStateStore eng) < getLineCount (textModel eng))"

definition isCheapToTokenize :: "('s, 'e, 'm) TextModelTokenization \<Rightarrow> int \<Rightarrow> bool" where
  "isCheapToTokenize eng lineNum =
     (case tokenizationSupport eng of
        None \<Rightarrow> True
      | Some T \<Rightarrow>
          (let firstInvalidLineNumber = invalidLineStartIndex (tokenizationStateStore eng) + 1
           in if lineNum > firstInvalidLineNumber then False
              else if lineNum < firstInvalidLineNumber then True
              else if getLineLength (textModel eng) lineNum < CHEAP_TOKENIZATION_LENGTH_LIMIT
                   then True
              else False))"









subsection \<open>Viewport tokenization\<close>




text \<open>The third loop, over the lines of the viewport.\<close>

function tokenizeViewport_lines ::
  "'s IState_methods \<Rightarrow> 'm LineTokens_methods \<Rightarrow> ('s, 'e, 'm) TextModelTokenization
     \<Rightarrow> (int \<times> (int \<times> 'm) list) list \<Rightarrow> 's \<Rightarrow> int \<Rightarrow> int
     \<Rightarrow> ('s, 'e, 'm) TextModelTokenization \<times> (int \<times> (int \<times> 'm) list) list" where
  "tokenizeViewport_lines S H eng builder state lineNum endLineNum =
     (if lineNum \<le> endLineNum
      then
        (let text = getLineContent (textModel eng) lineNum;
             res = safeTokenize S H (encodeLanguageId eng) (getLanguageId (textModel eng))
                     (tokenizationSupport eng) text True state
         in tokenizeViewport_lines S H
              (eng\<lparr> tokenizationStateStore :=
                       setFakeTokens (tokenizationStateStore eng) (lineNum - 1),
                    unexpectedErrors := unexpectedErrors eng @ snd res \<rparr>)
              (builder @ [(lineNum, tokens (fst res))])
              (endState (fst res)) (lineNum + 1) endLineNum)
      else (eng, builder))"
  by pat_completeness auto
termination
  by (relation "measure (\<lambda>(S, H, eng, builder, state, lineNum, endLineNum).
                   nat (endLineNum - lineNum + 1))") auto

declare tokenizeViewport_lines.simps [simp del]



subsection \<open>Construction and reset\<close>

text \<open>
  \<open>initializeTokenization\<close>: the tokenizer, the initial state and the errors reported.
  \<open>registry languageId\<close> is \<open>TokenizationRegistry.get(languageId)\<close>.
\<close>

definition initializeTokenization ::
  "(string \<Rightarrow> ('s, 'e, 'm) ITokenizationSupport option) \<Rightarrow> 'm TextModel
     \<Rightarrow> ('s, 'e, 'm) ITokenizationSupport option \<times> 's option \<times> 'e list" where
  "initializeTokenization registry tm =
     (let languageId = getLanguageId tm;
          support = (if isTooLargeForTokenization tm then None else registry languageId)
      in case support of
           None \<Rightarrow> (None, None, [])
         | Some T \<Rightarrow>
             (case getInitialState T of
                Inr initialState \<Rightarrow> (Some T, Some initialState, [])
              | Inl e \<Rightarrow> (None, None, [e])))"

text \<open>
  \<open>_beginBackgroundTokenization\<close>, up to the request for an idle callback: the flag
  \<open>_isScheduled\<close> is set; the callback itself runs later and is not part of this step.
\<close>

definition beginBackgroundTokenization ::
  "('s, 'e, 'm) TextModelTokenization \<Rightarrow> ('s, 'e, 'm) TextModelTokenization" where
  "beginBackgroundTokenization eng =
     (if isScheduled eng \<or> \<not> isAttachedToEditor (textModel eng) \<or> \<not> hasLinesToTokenize eng
      then eng
      else eng\<lparr> isScheduled := True \<rparr>)"

definition resetTokenizationState ::
  "(string \<Rightarrow> ('s, 'e, 'm) ITokenizationSupport option) \<Rightarrow> ('s, 'e, 'm) TextModelTokenization
     \<Rightarrow> ('s, 'e, 'm) TextModelTokenization" where
  "resetTokenizationState registry eng =
     (case initializeTokenization registry (textModel eng) of
        (support, initialState, errs) \<Rightarrow>
          beginBackgroundTokenization
            (eng\<lparr> tokenizationSupport := support,
                  tokenizationStateStore := flush (tokenizationStateStore eng) initialState,
                  unexpectedErrors := unexpectedErrors eng @ errs \<rparr>))"

text \<open>The constructor (the event subscriptions it registers are not state).\<close>

definition new_engine ::
  "(string \<Rightarrow> ('s, 'e, 'm) ITokenizationSupport option) \<Rightarrow> 'm TextModel \<Rightarrow> (string \<Rightarrow> int)
     \<Rightarrow> ('s, 'e, 'm) TextModelTokenization" where
  "new_engine registry tm codec =
     resetTokenizationState registry
       \<lparr> tokenizationStateStore = new_store, isDisposed = False, tokenizationSupport = None,
         textModel = tm, encodeLanguageId = codec, isScheduled = False,
         unexpectedErrors = [] \<rparr>"

section \<open>Properties of the engine\<close>

subsection \<open>A throwing tokenizer\<close>

text \<open>
  Claim C6 (tokenizer-failure containment): for every \<open>languageId\<close>, \<open>text\<close>,
  \<open>hasEOL\<close> and \<open>state\<close>, if the tokenizer throws \<open>e\<close> on the cloned state,
  \<open>safeTokenize\<close> hands \<open>e\<close> to \<open>onUnexpectedError\<close> (and nothing else), and
  returns the null tokenization of the line: one token that ends at \<open>text.length\<close>, with
  the null tokenizer's metadata, and the end state is the caller's \<open>state\<close> itself. It
  returns a result, so the caller goes on.
\<close>

theorem safeTokenize_tokenizer_throws:
  assumes "tokenizeEncoded T text hasEOL (clone S state) = Inl e"
  shows "safeTokenize S H codec languageId (Some T) text hasEOL state
           = (\<lparr> tokens = [(int (length text), nullMetadata H (codec languageId))],
                 endState = state \<rparr>, [e])"
  using assms by (simp add: safeTokenize_def nullTokenizeEncoded_def)

text \<open>
  Examples share one tokenizer over states \<open>nat\<close>: it throws on the line \<open>boom\<close>,
  and elsewhere returns one token and the state it was given (a single-state grammar).
\<close>

definition example_states :: "nat IState_methods" where
  "example_states = \<lparr> clone = (\<lambda>s. s), equals = (=) \<rparr>"

definition example_tokens :: "nat LineTokens_methods" where
  "example_tokens =
     \<lparr> nullMetadata = (\<lambda>languageId. 0),
       findTokenIndexAtOffset = (\<lambda>ts offset. 0),
       getStandardTokenType = (\<lambda>ts tokenIndex. if snd (ts ! 0) = 1 then Comment else Other) \<rparr>"

definition example_tokenizer :: "(nat, string, nat) ITokenizationSupport" where
  "example_tokenizer =
     \<lparr> getInitialState = Inr 0,
       tokenizeEncoded = (\<lambda>text hasEOL s.
         if text = ''boom'' then Inl ''tokenizer failed''
         else Inr \<lparr> tokens = [(0, 1)], endState = s \<rparr>) \<rparr>"

theorem safeTokenize_tokenizer_throws_witness:
  "tokenizeEncoded example_tokenizer ''boom'' True (clone example_states 7)
     = Inl ''tokenizer failed''
   \<and> safeTokenize example_states example_tokens (\<lambda>l. 1) ''plaintext'' (Some example_tokenizer)
       ''boom'' True 7
     = (\<lparr> tokens = [(4, 0)], endState = 7 \<rparr>, [''tokenizer failed''])"
proof -
  have h: "tokenizeEncoded example_tokenizer ''boom'' True (clone example_states 7)
             = Inl ''tokenizer failed''"
    by (simp add: example_tokenizer_def)
  from safeTokenize_tokenizer_throws [OF h, of example_tokens "\<lambda>l. 1" "''plaintext''"] h
  show ?thesis by (simp add: example_tokens_def)
qed

subsection \<open>Cheap tokenization\<close>

text \<open>
  Claim C10 (no tokenizer): in every engine state with no tokenizer installed
  (\<open>_tokenizationSupport\<close> is \<open>null\<close>), \<open>isCheapToTokenize(lineNumber)\<close> is true
  for every line number, whatever the frontier and the length of the line.
\<close>

theorem isCheapToTokenize_no_tokenizer:
  assumes "tokenizationSupport eng = None"
  shows "isCheapToTokenize eng lineNum"
  using assms by (simp add: isCheapToTokenize_def)

definition example_model :: "string list \<Rightarrow> nat TextModel" where
  "example_model ls =
     \<lparr> getLineCount = int (length ls),
       getLineContent = (\<lambda>n. ls ! nat (n - 1)),
       getLineLength = (\<lambda>n. int (length (ls ! nat (n - 1)))),
       getLineFirstNonWhitespaceColumn = (\<lambda>n.
         if \<forall>c \<in> set (ls ! nat (n - 1)). c = CHR '' '' then 0
         else int (length (takeWhile (\<lambda>c. c = CHR '' '') (ls ! nat (n - 1)))) + 1),
       getLanguageId = ''plaintext'',
       isAttachedToEditor = True,
       isTooLargeForTokenization = False,
       setTokensCalls = [] \<rparr>"

definition plain_engine :: "(nat, string, nat) TextModelTokenization" where
  "plain_engine =
     new_engine (\<lambda>languageId. None) (example_model [replicate 5000 CHR ''x'', ''b'', ''c''])
       (\<lambda>languageId. 1)"

theorem isCheapToTokenize_no_tokenizer_witness:
  "tokenizationSupport plain_engine = None
   \<and> invalidLineStartIndex (tokenizationStateStore plain_engine) = 0
   \<and> \<not> getLineLength (textModel plain_engine) 1 < 2048
   \<and> isCheapToTokenize plain_engine 1
   \<and> isCheapToTokenize plain_engine 3"
proof -
  have h: "tokenizationSupport plain_engine = None"
    by (simp add: plain_engine_def new_engine_def resetTokenizationState_def
          initializeTokenization_def example_model_def beginBackgroundTokenization_def
          hasLinesToTokenize_def)
  have f: "invalidLineStartIndex (tokenizationStateStore plain_engine) = 0"
    by (simp add: plain_engine_def new_engine_def resetTokenizationState_def
          initializeTokenization_def example_model_def beginBackgroundTokenization_def
          hasLinesToTokenize_def flush_def reset_def new_store_def)
  have l: "\<not> getLineLength (textModel plain_engine) 1 < 2048"
    by (simp add: plain_engine_def new_engine_def resetTokenizationState_def
          initializeTokenization_def example_model_def beginBackgroundTokenization_def
          hasLinesToTokenize_def)
  from isCheapToTokenize_no_tokenizer [OF h, of 1] isCheapToTokenize_no_tokenizer [OF h, of 3]
    h f l
  show ?thesis by simp
qed

text \<open>
  Claim C7 as stated (for every engine state, \<open>isCheapToTokenize\<close> is true if and only
  if the line is below \<open>invalidFrontier + 1\<close>, or is that line and shorter than 2048)
  fails when no tokenizer is installed: the method then returns true first. Line 3 of the
  untokenized three-line buffer above is beyond the frontier line and cheap all the same;
  line 1 is the frontier line, has 5000 characters, and is cheap as well.
\<close>

theorem isCheapToTokenize_iff_counterexample:
  "invalidLineStartIndex (tokenizationStateStore plain_engine) + 1 = 1
   \<and> isCheapToTokenize plain_engine 3
   \<and> \<not> (3 < invalidLineStartIndex (tokenizationStateStore plain_engine) + 1
          \<or> (3 = invalidLineStartIndex (tokenizationStateStore plain_engine) + 1
              \<and> getLineLength (textModel plain_engine) 3 < 2048))
   \<and> isCheapToTokenize plain_engine 1
   \<and> \<not> (1 < invalidLineStartIndex (tokenizationStateStore plain_engine) + 1
          \<or> (1 = invalidLineStartIndex (tokenizationStateStore plain_engine) + 1
              \<and> getLineLength (textModel plain_engine) 1 < 2048))"
  by (simp add: plain_engine_def new_engine_def resetTokenizationState_def
        initializeTokenization_def example_model_def beginBackgroundTokenization_def
        hasLinesToTokenize_def flush_def reset_def new_store_def isCheapToTokenize_def)

text \<open>
  Claim C7, amended: in every engine state with a tokenizer installed,
  \<open>isCheapToTokenize(lineNumber)\<close> is true if and only if the line is already
  tokenized (\<open>lineNumber\<close> is below \<open>invalidFrontier + 1\<close>), or \<open>lineNumber\<close> is
  exactly the next invalid line (\<open>invalidFrontier + 1\<close>) and its length is below 2048;
  lines beyond that are expensive.
\<close>

theorem isCheapToTokenize_iff:
  assumes "tokenizationSupport eng = Some T"
  shows "isCheapToTokenize eng lineNum
           = (lineNum < invalidLineStartIndex (tokenizationStateStore eng) + 1
              \<or> (lineNum = invalidLineStartIndex (tokenizationStateStore eng) + 1
                  \<and> getLineLength (textModel eng) lineNum < 2048))"
  using assms
  by (auto simp: isCheapToTokenize_def Let_def CHEAP_TOKENIZATION_LENGTH_LIMIT_def)

definition example_engine :: "string list \<Rightarrow> (nat, string, nat) TextModelTokenization" where
  "example_engine ls =
     new_engine (\<lambda>languageId. Some example_tokenizer) (example_model ls) (\<lambda>languageId. 1)"

lemma example_engine_eq:
  "example_engine ls =
     \<lparr> tokenizationStateStore =
         \<lparr> beginState = [Some 0], valid = [False], len = 1, invalidLineStartIndex = 0 \<rparr>,
       isDisposed = False, tokenizationSupport = Some example_tokenizer,
       textModel = example_model ls, encodeLanguageId = (\<lambda>languageId. 1),
       isScheduled = (ls \<noteq> []), unexpectedErrors = [] \<rparr>"
  by (auto simp: example_engine_def new_engine_def resetTokenizationState_def
        initializeTokenization_def example_model_def beginBackgroundTokenization_def
        hasLinesToTokenize_def flush_def reset_def new_store_def example_tokenizer_def
        setBeginState_def ensureLine.simps arr_set_def Let_def)

theorem isCheapToTokenize_iff_witness:
  "tokenizationSupport (example_engine [replicate 100 CHR ''x'', replicate 5000 CHR ''y''])
     = Some example_tokenizer
   \<and> isCheapToTokenize (example_engine [replicate 100 CHR ''x'', replicate 5000 CHR ''y'']) 1
   \<and> \<not> isCheapToTokenize (example_engine [replicate 100 CHR ''x'', replicate 5000 CHR ''y'']) 2
   \<and> \<not> isCheapToTokenize (example_engine [replicate 5000 CHR ''y'']) 1"
proof -
  let ?a = "example_engine [replicate 100 CHR ''x'', replicate 5000 CHR ''y'']"
  let ?b = "example_engine [replicate 5000 CHR ''y'']"
  have ha: "tokenizationSupport ?a = Some example_tokenizer"
    and hb: "tokenizationSupport ?b = Some example_tokenizer"
    by (simp_all add: example_engine_eq)
  have fa: "invalidLineStartIndex (tokenizationStateStore ?a) = 0"
    and fb: "invalidLineStartIndex (tokenizationStateStore ?b) = 0"
    by (simp_all add: example_engine_eq)
  have la: "getLineLength (textModel ?a) 1 = 100" and lb: "getLineLength (textModel ?b) 1 = 5000"
    by (simp_all add: example_engine_eq example_model_def)
  from isCheapToTokenize_iff [OF ha, of 1] isCheapToTokenize_iff [OF ha, of 2]
    isCheapToTokenize_iff [OF hb, of 1] ha fa fb la lb
  show ?thesis by simp
qed

subsection \<open>Viewport tokenization marks its lines fake\<close>



lemma tokenizeViewport_lines_support:
  "tokenizationSupport (fst (tokenizeViewport_lines S H eng builder state lineNum endLineNum))
   = tokenizationSupport eng"
  by (induction S H eng builder state lineNum endLineNum rule: tokenizeViewport_lines.induct)
     (subst tokenizeViewport_lines.simps, simp add: Let_def)


lemma tokenizeViewport_lines_wf:
  "store_wf (tokenizationStateStore eng) \<Longrightarrow>
   store_wf (tokenizationStateStore
     (fst (tokenizeViewport_lines S H eng builder state lineNum endLineNum)))"
  by (induction S H eng builder state lineNum endLineNum rule: tokenizeViewport_lines.induct)
     (subst tokenizeViewport_lines.simps, simp add: Let_def setFakeTokens_def setValid_wf)







subsection \<open>The character-insertion probe\<close>









end
